theory Spec2Isabelle
  imports
    Complex_Main
    "HOL-Library.Char_ord"
    "HOL-Library.List_Lexorder"
    "HOL-Library.Multiset"
    "HOL-Library.Sublist"
begin

section \<open>JavaScript strings\<close>

text \<open>
  A JavaScript string is modelled by the list of its code units (\<^typ>\<open>string\<close>); the model
  covers code units below 256. The order on strings used by \<open>Array.prototype.sort\<close> without
  a comparator is the lexicographic order on code units, which is the order of
  \<^typ>\<open>char list\<close> here.
\<close>

definition startsWith :: "string \<Rightarrow> string \<Rightarrow> bool" where
  "startsWith s p = (take (length p) s = p)"

definition endsWith :: "string \<Rightarrow> string \<Rightarrow> bool" where
  "endsWith s p = (length p \<le> length s \<and> drop (length s - length p) s = p)"

fun includes_str :: "string \<Rightarrow> string \<Rightarrow> bool" where
  "includes_str [] p = (p = [])"
| "includes_str (c # cs) p = (startsWith (c # cs) p \<or> includes_str cs p)"

text \<open>
  The source's \<open>includes\<close> is \<open>includes_str\<close> here, the plain name being reserved.
  \<open>Boolean(s)\<close> on a string: the empty string is the only falsy one.
\<close>

definition Boolean :: "string \<Rightarrow> bool" where
  "Boolean s = (s \<noteq> [])"

text \<open>\<open>s.replace(/\\/g, '/')\<close>: every backslash becomes a slash.\<close>

definition backslash :: char where
  "backslash = CHR 0x5C"

definition replace_backslashes :: "string \<Rightarrow> string" where
  "replace_backslashes s = map (\<lambda>c. if c = backslash then CHR ''/'' else c) s"

text \<open>\<open>s.replace(/index\.html$/, '')\<close>: a match can only be the last ten code units.\<close>

definition replace_index_html :: "string \<Rightarrow> string" where
  "replace_index_html s =
     (if endsWith s ''index.html'' then take (length s - length ''index.html'') s else s)"

text \<open>
  \<open>s.trim()\<close> removes white space and line terminators at both ends; below 256 these are
  the code units 9 to 13, 32 and 160.
\<close>

definition is_space :: "char \<Rightarrow> bool" where
  "is_space c = (of_char c \<in> {9, 10, 11, 12, 13, 32, 160 :: nat})"

definition trim :: "string \<Rightarrow> string" where
  "trim s = rev (dropWhile is_space (rev (dropWhile is_space s)))"

section \<open>The sitemap generator (scripts/generate-sitemap.mjs)\<close>

subsection \<open>Paths\<close>

text \<open>
  \<open>ROOT_DIR\<close> is computed from the location of the script, so it is a parameter \<open>rootDir\<close> of
  the model: a normalised absolute directory path without a trailing separator. On such a
  directory and a single entry name, \<open>path.join\<close> is concatenation with the separator, and
  \<open>path.relative\<close> of a path below \<open>rootDir\<close> is what follows \<open>rootDir\<close> and the separator. Every
  path the directory walk produces is of that shape (lemma \<open>walk_below_root\<close>); on other
  paths the model of \<open>path.relative\<close> returns its argument.
\<close>

definition path_join :: "string \<Rightarrow> string \<Rightarrow> string" where
  "path_join dir name = dir @ ''/'' @ name"

definition path_relative :: "string \<Rightarrow> string \<Rightarrow> string" where
  "path_relative from to =
     (if startsWith to (from @ ''/'') then drop (length from + 1) to else to)"

definition BASE_URL :: string where
  "BASE_URL = ''https://onlinetranslation.ae''"

definition SKIP_FILES :: "string list" where
  "SKIP_FILES = [''404.html'', ''offline.html'']"

definition SKIP_DIRS :: "string list" where
  "SKIP_DIRS = [''node_modules'', ''.git'', ''.github'', ''scripts'', ''styles'', ''images'',
     ''attached_assets'']"

subsection \<open>The file system\<close>

text \<open>
  A directory entry as \<open>fs.readdir(dir, {withFileTypes: true})\<close> reports it: a regular file,
  a directory (with what reading it returns: its entries, or an error), or an entry that is
  neither (\<open>isDirectory()\<close> and \<open>isFile()\<close> both false: a socket, a symbolic link, ...).
\<close>

datatype fs_error = EACCES | ENOENT | ENOTDIR | EIO | ENOSPC

datatype dirent =
    File string
  | Dir string "dirent list"
  | DirUnreadable string fs_error
  | Other string

text \<open>
  \<open>getHtmlFiles(dir)\<close> reads the directory and loops over its entries; \<open>walk\<close> is the loop,
  on the entries \<open>readdir\<close> returned. A rejected \<open>readdir\<close> leaves the function at once, so
  the first error met in the order of the walk is the result.
\<close>

fun walk :: "string \<Rightarrow> dirent list \<Rightarrow> fs_error + string list" where
  "walk dir [] = Inr []"
| "walk dir (File name # es) =
     (if endsWith name ''.html'' \<and> name \<notin> set SKIP_FILES
      then (case walk dir es of Inl e \<Rightarrow> Inl e | Inr rest \<Rightarrow> Inr (path_join dir name # rest))
      else walk dir es)"
| "walk dir (Dir name sub # es) =
     (if name \<notin> set SKIP_DIRS
      then (case walk (path_join dir name) sub of
              Inl e \<Rightarrow> Inl e
            | Inr found \<Rightarrow>
                (case walk dir es of Inl e \<Rightarrow> Inl e | Inr rest \<Rightarrow> Inr (found @ rest)))
      else walk dir es)"
| "walk dir (DirUnreadable name err # es) =
     (if name \<notin> set SKIP_DIRS then Inl err else walk dir es)"
| "walk dir (Other name # es) = walk dir es"

text \<open>The root directory itself may be unreadable.\<close>

definition getHtmlFiles :: "string \<Rightarrow> fs_error + dirent list \<Rightarrow> fs_error + string list" where
  "getHtmlFiles dir listing = (case listing of Inl e \<Rightarrow> Inl e | Inr entries \<Rightarrow> walk dir entries)"

subsection \<open>URL paths and their metadata\<close>

definition toUrlPath :: "string \<Rightarrow> string \<Rightarrow> string" where
  "toUrlPath rootDir filePath =
     (let relPath = replace_backslashes (path_relative rootDir filePath) in
      if relPath = ''index.html'' then ''/''
      else
        let relPath = (if endsWith relPath ''/index.html''
                       then replace_index_html relPath else relPath) in
        if \<not> startsWith relPath ''/'' then ''/'' @ relPath else relPath)"

record meta =
  changefreq :: string
  priority :: string

definition getMeta :: "string \<Rightarrow> meta" where
  "getMeta urlPath =
     (if urlPath = ''/'' then \<lparr>changefreq = ''weekly'', priority = ''1.0''\<rparr>
      else if includes_str urlPath ''/services/'' then \<lparr>changefreq = ''weekly'', priority = ''0.9''\<rparr>
      else if includes_str urlPath ''/personal/'' \<or> includes_str urlPath ''/legal/''
        then \<lparr>changefreq = ''weekly'', priority = ''0.9''\<rparr>
      else if includes_str urlPath ''/locations/'' then \<lparr>changefreq = ''monthly'', priority = ''0.8''\<rparr>
      else if includes_str urlPath ''/industries/'' then \<lparr>changefreq = ''monthly'', priority = ''0.7''\<rparr>
      else if includes_str urlPath ''/resources/'' then \<lparr>changefreq = ''monthly'', priority = ''0.7''\<rparr>
      else if includes_str urlPath ''privacy'' \<or> includes_str urlPath ''terms''
        then \<lparr>changefreq = ''yearly'', priority = ''0.3''\<rparr>
      else \<lparr>changefreq = ''monthly'', priority = ''0.6''\<rparr>)"

subsection \<open>Generation\<close>

record url =
  loc :: string
  lastmod :: string
  url_changefreq :: string
  url_priority :: string

definition mk_url :: "string \<Rightarrow> string \<Rightarrow> url" where
  "mk_url now p =
     (let m = getMeta p in
      \<lparr>loc = BASE_URL @ p, lastmod = now, url_changefreq = changefreq m,
       url_priority = priority m\<rparr>)"

text \<open>The chain \<open>htmlFiles.map(toUrlPath).filter(Boolean).sort()\<close>, then the last \<open>map\<close>.\<close>

definition sorted_paths :: "string \<Rightarrow> string list \<Rightarrow> string list" where
  "sorted_paths rootDir htmlFiles = sort (filter Boolean (map (toUrlPath rootDir) htmlFiles))"

definition urls :: "string \<Rightarrow> string \<Rightarrow> string list \<Rightarrow> url list" where
  "urls rootDir now htmlFiles = map (mk_url now) (sorted_paths rootDir htmlFiles)"

definition join_lines :: "string list \<Rightarrow> string" where
  "join_lines ls = (case ls of [] \<Rightarrow> [] | l # rest \<Rightarrow> l @ concat (map (\<lambda>x. CHR 0x0A # x) rest))"

definition url_xml :: "url \<Rightarrow> string" where
  "url_xml u =
     ''    <url>'' @ [CHR 0x0A] @
     ''        <loc>'' @ loc u @ ''</loc>'' @ [CHR 0x0A] @
     ''        <lastmod>'' @ lastmod u @ ''</lastmod>'' @ [CHR 0x0A] @
     ''        <changefreq>'' @ url_changefreq u @ ''</changefreq>'' @ [CHR 0x0A] @
     ''        <priority>'' @ url_priority u @ ''</priority>'' @ [CHR 0x0A] @
     ''    </url>''"

definition sitemap_xml :: "url list \<Rightarrow> string" where
  "sitemap_xml us =
     ''<?xml version=\"1.0\" encoding=\"UTF-8\"?>'' @ [CHR 0x0A] @
     ''<urlset xmlns=\"http://www.sitemaps.org/schemas/sitemap/0.9\"'' @ [CHR 0x0A] @
     ''        xmlns:xsi=\"http://www.w3.org/2001/XMLSchema-instance\"'' @ [CHR 0x0A] @
     ''        xsi:schemaLocation=\"http://www.sitemaps.org/schemas/sitemap/0.9'' @ [CHR 0x0A] @
     ''                            http://www.sitemaps.org/schemas/sitemap/0.9/sitemap.xsd\">''
       @ [CHR 0x0A] @
     join_lines (map url_xml us) @ [CHR 0x0A] @
     ''</urlset>''"

text \<open>
  What a run does to the world: the content of \<open>sitemap.xml\<close> when it was written, the
  lines on the console, and the exit status of the process. \<open>writeFile\<close> succeeds or is
  rejected with an error (\<open>write_result\<close>); after a rejected write no sitemap is counted as
  written.
\<close>

datatype log_line = Generated nat | ErrorGenerating fs_error

record run =
  written :: "string option"
  console :: "log_line list"
  exit_status :: nat

text \<open>\<open>generate()\<close>: the promise is rejected with the error, or fulfilled after the two effects.\<close>

definition generate ::
  "string \<Rightarrow> fs_error + dirent list \<Rightarrow> string \<Rightarrow> fs_error option \<Rightarrow> fs_error + string \<times> log_line" where
  "generate rootDir listing now write_result =
     (case getHtmlFiles rootDir listing of
        Inl e \<Rightarrow> Inl e
      | Inr htmlFiles \<Rightarrow>
          (let us = urls rootDir now htmlFiles;
               xml = sitemap_xml us
           in case write_result of
                Some e \<Rightarrow> Inl e
              | None \<Rightarrow> Inr (trim xml @ [CHR 0x0A], Generated (length us))))"

text \<open>The script's last statement: \<open>generate().catch(...)\<close> with \<open>process.exit(1)\<close>.\<close>

definition main ::
  "string \<Rightarrow> fs_error + dirent list \<Rightarrow> string \<Rightarrow> fs_error option \<Rightarrow> run" where
  "main rootDir listing now write_result =
     (case generate rootDir listing now write_result of
        Inl e \<Rightarrow> \<lparr>written = None, console = [ErrorGenerating e], exit_status = 1\<rparr>
      | Inr (content, line) \<Rightarrow> \<lparr>written = Some content, console = [line], exit_status = 0\<rparr>)"

subsection \<open>What the walk is compared with\<close>

text \<open>
  Every regular file of a tree, with the names of the directories on the way to it from the
  root, in the order of the listing; the files below an unreadable directory are unknown.
\<close>

fun all_files :: "string list \<Rightarrow> dirent list \<Rightarrow> (string list \<times> string) list" where
  "all_files ds [] = []"
| "all_files ds (File name # es) = (ds, name) # all_files ds es"
| "all_files ds (Dir name sub # es) = all_files (ds @ [name]) sub @ all_files ds es"
| "all_files ds (DirUnreadable name err # es) = all_files ds es"
| "all_files ds (Other name # es) = all_files ds es"

text \<open>
  A file counts for the sitemap when it is an HTML file, its name is not in the skip list
  of files, and no directory on the way to it is in the skip list of directories.
\<close>

definition wanted :: "string list \<times> string \<Rightarrow> bool" where
  "wanted f = (endsWith (snd f) ''.html'' \<and> snd f \<notin> set SKIP_FILES
     \<and> set (fst f) \<inter> set SKIP_DIRS = {})"

definition full_path :: "string \<Rightarrow> string list \<times> string \<Rightarrow> string" where
  "full_path rootDir f = foldl path_join rootDir (fst f @ [snd f])"

text \<open>
  The errors of the directories the walk has to read: the unreadable ones that are neither
  skipped nor below a skipped directory, in the order of the walk.
\<close>

fun read_errors :: "dirent list \<Rightarrow> fs_error list" where
  "read_errors [] = []"
| "read_errors (File name # es) = read_errors es"
| "read_errors (Dir name sub # es) =
     (if name \<in> set SKIP_DIRS then [] else read_errors sub) @ read_errors es"
| "read_errors (DirUnreadable name err # es) =
     (if name \<in> set SKIP_DIRS then [] else [err]) @ read_errors es"
| "read_errors (Other name # es) = read_errors es"

definition fs_error_occurs :: "fs_error + dirent list \<Rightarrow> fs_error option \<Rightarrow> bool" where
  "fs_error_occurs listing write_result =
     (case listing of
        Inl e \<Rightarrow> True
      | Inr entries \<Rightarrow> read_errors entries \<noteq> [] \<or> write_result \<noteq> None)"

text \<open>The URL path of an entry: its location without the base URL.\<close>

definition url_path :: "url \<Rightarrow> string" where
  "url_path u = drop (length BASE_URL) (loc u)"

section \<open>The navigation scroll handler\<close>

text \<open>
  A \<open>classList\<close> is an ordered set of tokens: \<open>add\<close> appends a token that is not there,
  \<open>remove\<close> deletes it.
\<close>

definition classList_add :: "string \<Rightarrow> string list \<Rightarrow> string list" where
  "classList_add c cs = (if c \<in> set cs then cs else cs @ [c])"

definition classList_remove :: "string \<Rightarrow> string list \<Rightarrow> string list" where
  "classList_remove c cs = filter (\<lambda>x. x \<noteq> c) cs"

definition classList_contains :: "string list \<Rightarrow> string \<Rightarrow> bool" where
  "classList_contains cs c = (c \<in> set cs)"

text \<open>
  The state of the script: the class list of the element with id \<open>header\<close> (\<open>None\<close> when
  \<open>getElementById\<close> returned \<open>null\<close>), the flag \<open>ticking\<close>, and the number of animation
  frames requested and not yet run. \<open>window.pageYOffset\<close> is a finite double; the model reads
  it as the real number it denotes.
\<close>

record nav =
  header :: "string list option"
  ticking :: bool
  frames :: nat

definition updateHeader :: "real \<Rightarrow> nav \<Rightarrow> nav" where
  "updateHeader pageYOffset st =
     (case header st of
        None \<Rightarrow> st\<lparr>ticking := False\<rparr>
      | Some cs \<Rightarrow>
          (let currentScroll = pageYOffset in
           st\<lparr>header := Some (if currentScroll > 50 then classList_add ''scrolled'' cs
                                 else classList_remove ''scrolled'' cs),
              ticking := False\<rparr>))"

definition on_scroll :: "nav \<Rightarrow> nav" where
  "on_scroll st = (if \<not> ticking st then st\<lparr>ticking := True, frames := frames st + 1\<rparr> else st)"

section \<open>The image optimizer\<close>

subsection \<open>Format substitution\<close>

text \<open>
  Matching under the flag \<open>i\<close>: a letter of the pattern matches both of its cases, and no
  other code unit does.
\<close>

definition lower :: "char \<Rightarrow> char" where
  "lower c =
     (case map_of (zip ''ABCDEFGHIJKLMNOPQRSTUVWXYZ'' ''abcdefghijklmnopqrstuvwxyz'') c of
        Some l \<Rightarrow> l | None \<Rightarrow> c)"

text \<open>
  \<open>/\.(jpe?g|png)/i\<close> at the start of a string: the length of the match, if there is one.
  The alternatives are tried in the order \<open>.jpeg\<close>, \<open>.jpg\<close>, \<open>.png\<close>.
\<close>

definition match_ext :: "string \<Rightarrow> nat option" where
  "match_ext s =
     (if map lower (take 5 s) = ''.jpeg'' then Some 5
      else if map lower (take 4 s) = ''.jpg'' then Some 4
      else if map lower (take 4 s) = ''.png'' then Some 4
      else None)"

text \<open>
  \<open>src.replace(/\.(jpe?g|png)$/i, '.webp')\<close>: the first position from the left where the
  pattern matches up to the end of the string.
\<close>

fun replace_ext_end :: "string \<Rightarrow> string" where
  "replace_ext_end [] = []"
| "replace_ext_end (c # cs) =
     (if match_ext (c # cs) = Some (length (c # cs)) then ''.webp'' else c # replace_ext_end cs)"

text \<open>\<open>src.replace(/\.(jpe?g|png)/gi, '.webp')\<close>: every match, from left to right.\<close>

function replace_ext_all :: "string \<Rightarrow> string" where
  "replace_ext_all [] = []"
| "replace_ext_all (c # cs) =
     (case match_ext (c # cs) of
        Some n \<Rightarrow> ''.webp'' @ replace_ext_all (drop n (c # cs))
      | None \<Rightarrow> c # replace_ext_all cs)"
  by pat_completeness auto
termination
  by (relation "measure length") (auto simp: match_ext_def split: if_splits)

text \<open>\<open>s.split(',')\<close> and \<open>parts.join(', ')\<close>.\<close>

fun split_comma :: "string \<Rightarrow> string list" where
  "split_comma [] = [[]]"
| "split_comma (c # cs) =
     (if c = CHR '','' then [] # split_comma cs
      else (case split_comma cs of [] \<Rightarrow> [[c]] | part # parts \<Rightarrow> (c # part) # parts))"

fun join_comma :: "string list \<Rightarrow> string" where
  "join_comma [] = []"
| "join_comma [part] = part"
| "join_comma (part # parts) = part @ '', '' @ join_comma parts"

text \<open>
  \<open>this.webpSupported\<close> is \<open>null\<close> until the detection has answered, then a boolean; the
  conditions of the source test its truthiness.
\<close>

definition truthy :: "bool option \<Rightarrow> bool" where
  "truthy webpSupported = (webpSupported = Some True)"

definition getOptimizedSrc :: "bool option \<Rightarrow> string \<Rightarrow> string" where
  "getOptimizedSrc webpSupported src =
     (if truthy webpSupported \<and> \<not> endsWith src ''.webp'' \<and> \<not> includes_str src ''data:''
      then replace_ext_end src
      else src)"

definition getOptimizedSrcset :: "bool option \<Rightarrow> string \<Rightarrow> string" where
  "getOptimizedSrcset webpSupported srcset =
     (if \<not> truthy webpSupported then srcset
      else join_comma (map (\<lambda>src. replace_ext_all (trim src)) (split_comma srcset)))"

subsection \<open>Image elements\<close>

text \<open>
  The attributes of an image element the script reads or writes (\<open>None\<close>: the attribute is
  absent) and its class list.
\<close>

record img =
  src_attr :: "string option"
  srcset_attr :: "string option"
  data_src :: "string option"
  data_srcset :: "string option"
  loading_attr :: "string option"
  classList :: "string list"

text \<open>
  What the script needs of the browser: which observers \<open>window\<close> has, and how a URL is
  resolved against the document. The property \<open>img.src\<close> is the resolved \<open>src\<close> attribute,
  and the empty string when the attribute is absent; the property \<open>img.loading\<close> is
  \<open>'lazy'\<close> when the attribute is that word in any case.
\<close>

record browser =
  resolveUrl :: "string \<Rightarrow> string"
  hasIntersectionObserver :: bool
  hasMutationObserver :: bool

definition img_src :: "browser \<Rightarrow> img \<Rightarrow> string" where
  "img_src br i = (case src_attr i of None \<Rightarrow> [] | Some v \<Rightarrow> resolveUrl br v)"

definition img_loading_lazy :: "img \<Rightarrow> bool" where
  "img_loading_lazy i = (case loading_attr i of None \<Rightarrow> False | Some v \<Rightarrow> map lower v = ''lazy'')"

text \<open>The selector \<open>img[data-src], img[loading="lazy"]\<close>.\<close>

definition matches_selector :: "img \<Rightarrow> bool" where
  "matches_selector i = (data_src i \<noteq> None \<or> loading_attr i = Some ''lazy'')"

subsection \<open>Loading an image\<close>

text \<open>
  \<open>loadImage\<close> changes nothing at once: it points a temporary image at the optimized source
  and leaves two handlers, which hold \<open>src\<close>, \<open>srcset\<close> and \<open>optimizedSrc\<close>. A \<open>probe\<close> is
  such a temporary image in flight.
\<close>

record probe =
  optimizedSrc :: string
  orig_src :: string
  orig_srcset :: "string option"

definition loadImage :: "browser \<Rightarrow> bool option \<Rightarrow> img \<Rightarrow> probe option" where
  "loadImage br webpSupported i =
     (let src = (case data_src i of
                   Some v \<Rightarrow> if v \<noteq> [] then v else img_src br i
                 | None \<Rightarrow> img_src br i);
          srcset = data_srcset i
      in if src \<noteq> [] \<and> src \<noteq> img_src br i
         then Some \<lparr>optimizedSrc = getOptimizedSrc webpSupported src, orig_src = src,
                     orig_srcset = srcset\<rparr>
         else None)"

text \<open>The handler \<open>tempImg.onload\<close>; it also starts the timer that removes \<open>fade-in\<close>.\<close>

definition onload :: "bool option \<Rightarrow> probe \<Rightarrow> img \<Rightarrow> img" where
  "onload webpSupported p i =
     i\<lparr>src_attr := Some (optimizedSrc p),
       srcset_attr := (case orig_srcset p of
                         Some ss \<Rightarrow> if ss \<noteq> [] then Some (getOptimizedSrcset webpSupported ss)
                                   else srcset_attr i
                       | None \<Rightarrow> srcset_attr i),
       classList := classList_add ''fade-in'' (classList_add ''loaded'' (classList i))\<rparr>"

text \<open>The handler \<open>tempImg.onerror\<close>.\<close>

definition onerror :: "probe \<Rightarrow> img \<Rightarrow> img" where
  "onerror p i = i\<lparr>src_attr := Some (orig_src p), classList := classList_add ''loaded'' (classList i)\<rparr>"

subsection \<open>One image on a page\<close>

text \<open>
  The optimizer keeps no state of its own between images, so the page is modelled with one
  image: the element, whether it is a target of the intersection observer, the temporary
  images in flight (oldest first), the pending fade timers, and the log of every source a
  temporary image was pointed at.
\<close>

record page =
  image :: img
  observed :: bool
  probes :: "probe list"
  timers :: nat
  loads :: "string list"

text \<open>A call \<open>this.loadImage(img)\<close> on the page.\<close>

definition call_loadImage :: "browser \<Rightarrow> bool option \<Rightarrow> page \<Rightarrow> page" where
  "call_loadImage br webpSupported st =
     (case loadImage br webpSupported (image st) of
        None \<Rightarrow> st
      | Some p \<Rightarrow> st\<lparr>probes := probes st @ [p], loads := loads st @ [optimizedSrc p]\<rparr>)"

definition setupLazyLoading :: "browser \<Rightarrow> bool option \<Rightarrow> page \<Rightarrow> page" where
  "setupLazyLoading br webpSupported st =
     (if hasIntersectionObserver br
      then (if matches_selector (image st) \<and> \<not> classList_contains (classList (image st)) ''loaded''
            then st\<lparr>observed := True\<rparr> else st)
      else (if data_src (image st) \<noteq> None then call_loadImage br webpSupported st else st))"

text \<open>
  What the browser can do to the page afterwards: call the intersection callback with an
  entry for the image, report an added node (the image itself, or an element that contains
  it), complete a temporary image, run a fade timer; and a direct call of \<open>loadImage\<close>.
\<close>

datatype added = Self | Ancestor

datatype event =
    Intersection bool
  | NodeAdded added
  | ProbeLoaded nat
  | ProbeFailed nat
  | FadeTimeout
  | LoadImage

fun step :: "browser \<Rightarrow> bool option \<Rightarrow> page \<Rightarrow> event \<Rightarrow> page" where
  "step br w st (Intersection isIntersecting) =
     (if observed st \<and> isIntersecting then (call_loadImage br w st)\<lparr>observed := False\<rparr> else st)"
| "step br w st (NodeAdded Ancestor) =
     (if hasMutationObserver br \<and> matches_selector (image st)
         \<and> \<not> classList_contains (classList (image st)) ''loaded'' \<and> hasIntersectionObserver br
      then st\<lparr>observed := True\<rparr> else st)"
| "step br w st (NodeAdded Self) =
     (if hasMutationObserver br
         \<and> ((case data_src (image st) of Some v \<Rightarrow> v \<noteq> [] | None \<Rightarrow> False)
              \<or> img_loading_lazy (image st))
         \<and> \<not> classList_contains (classList (image st)) ''loaded'' \<and> hasIntersectionObserver br
      then st\<lparr>observed := True\<rparr> else st)"
| "step br w st (ProbeLoaded k) =
     (if k < length (probes st)
      then st\<lparr>image := onload w (probes st ! k) (image st),
              probes := take k (probes st) @ drop (Suc k) (probes st),
              timers := timers st + 1\<rparr>
      else st)"
| "step br w st (ProbeFailed k) =
     (if k < length (probes st)
      then st\<lparr>image := onerror (probes st ! k) (image st),
              probes := take k (probes st) @ drop (Suc k) (probes st)\<rparr>
      else st)"
| "step br w st FadeTimeout =
     (if 0 < timers st
      then st\<lparr>image := (image st)\<lparr>classList := classList_remove ''fade-in'' (classList (image st))\<rparr>,
              timers := timers st - 1\<rparr>
      else st)"
| "step br w st LoadImage = call_loadImage br w st"

definition run_events :: "browser \<Rightarrow> bool option \<Rightarrow> page \<Rightarrow> event list \<Rightarrow> page" where
  "run_events br w st evs = foldl (step br w) st evs"

definition fresh_page :: "img \<Rightarrow> page" where
  "fresh_page i = \<lparr>image = i, observed = False, probes = [], timers = 0, loads = []\<rparr>"

text \<open>
  A concrete page for the examples: a browser with both observers in which the absolute URLs
  used resolve to themselves, and an image that waits for \<open>https://h/photo.jpg\<close>.
\<close>

abbreviation plain_browser :: browser where
  "plain_browser \<equiv>
     \<lparr>resolveUrl = (\<lambda>u. u), hasIntersectionObserver = True, hasMutationObserver = True\<rparr>"

abbreviation photo_img :: img where
  "photo_img \<equiv>
     \<lparr>src_attr = None, srcset_attr = None, data_src = Some ''https://h/photo.jpg'',
      data_srcset = None, loading_attr = None, classList = []\<rparr>"

section \<open>Facts about the string functions\<close>

lemma startsWith_prefix: "startsWith s p \<longleftrightarrow> prefix p s"
  unfolding startsWith_def by (metis append_eq_conv_conj prefix_def append_take_drop_id)

lemma endsWith_suffix: "endsWith s p \<longleftrightarrow> suffix p s"
proof
  assume "endsWith s p"
  then have "s = take (length s - length p) s @ p"
    by (metis endsWith_def append_take_drop_id)
  then show "suffix p s" by (rule suffixI)
next
  assume "suffix p s"
  then obtain zs where "s = zs @ p" by (auto elim: suffixE)
  then show "endsWith s p" by (simp add: endsWith_def)
qed

lemma includes_sublist: "includes_str s p \<longleftrightarrow> sublist p s"
  by (induction s) (auto simp: startsWith_prefix sublist_Cons_right)

lemma replace_backslashes_append:
  "replace_backslashes (a @ b) = replace_backslashes a @ replace_backslashes b"
  by (simp add: replace_backslashes_def)

lemma replace_backslashes_index: "replace_backslashes ''/index.html'' = ''/index.html''"
  by (simp add: replace_backslashes_def backslash_def)

section \<open>The sitemap generator: URL paths\<close>

lemma path_relative_join: "path_relative r (path_join r x) = x"
  by (simp add: path_relative_def path_join_def startsWith_def)

lemma toUrlPath_nonempty: "toUrlPath r f \<noteq> []"
  by (auto simp: toUrlPath_def Let_def startsWith_def)

lemma toUrlPath_dir_index:
  "toUrlPath r (path_join r (d @ ''/index.html''))
     = (if startsWith (replace_backslashes d @ ''/'') ''/''
        then replace_backslashes d @ ''/''
        else ''/'' @ replace_backslashes d @ ''/'')"
proof -
  let ?d = "replace_backslashes d"
  have rel: "replace_backslashes (path_relative r (path_join r (d @ ''/index.html'')))
      = ?d @ ''/index.html''"
    by (simp only: path_relative_join replace_backslashes_append replace_backslashes_index)
  have ne: "?d @ ''/index.html'' \<noteq> ''index.html''"
  proof
    assume "?d @ ''/index.html'' = ''index.html''"
    then have "length (?d @ ''/index.html'') = length ''index.html''" by simp
    then show False by simp
  qed
  have e1: "endsWith (?d @ ''/index.html'') ''/index.html''"
    by (simp add: endsWith_def)
  have e2: "endsWith (?d @ ''/index.html'') ''index.html''"
    by (simp add: endsWith_def)
  have cut: "replace_index_html (?d @ ''/index.html'') = ?d @ ''/''"
    unfolding replace_index_html_def using e2 by simp
  show ?thesis
    unfolding toUrlPath_def rel Let_def using ne e1 cut by simp
qed

lemma starts_with_separator:
  "startsWith (replace_backslashes d @ ''/'') ''/''
     = (d = [] \<or> hd d = CHR ''/'' \<or> hd d = backslash)"
  by (cases d) (auto simp: startsWith_def replace_backslashes_def backslash_def)

text \<open>
  C1, as the specification states it: a file path ending in \<open>/index.html\<close> would map to its
  parent directory path without a trailing slash, so \<open>about/index.html\<close> to \<open>/about\<close>. The
  code removes \<open>index.html\<close> only: the slash before it stays, and the result is \<open>/about/\<close>.
\<close>

theorem toUrlPath_keeps_trailing_slash:
  "toUrlPath ''/site'' (path_join ''/site'' ''about/index.html'') = ''/about/''
   \<and> toUrlPath ''/site'' (path_join ''/site'' ''about/index.html'') \<noteq> ''/about''"
  by code_simp

text \<open>
  C1, amended: the file \<open>index.html\<close> directly below the root maps to \<open>/\<close>, and the file
  \<open>index.html\<close> in a directory \<open>d\<close> below the root maps to \<open>d\<close> with its backslashes made
  slashes, then a slash, with a slash put in front unless there is one already (which is
  when \<open>d\<close> is empty or starts with a slash or a backslash): only \<open>index.html\<close> is removed,
  and the trailing slash is kept.
\<close>

theorem toUrlPath_index:
  "toUrlPath r (path_join r ''index.html'') = ''/''
   \<and> toUrlPath r (path_join r (d @ ''/index.html''))
     = (if d = [] \<or> hd d = CHR ''/'' \<or> hd d = backslash
        then replace_backslashes d @ ''/''
        else ''/'' @ replace_backslashes d @ ''/'')"
proof
  show "toUrlPath r (path_join r ''index.html'') = ''/''"
    by (simp add: toUrlPath_def path_relative_join replace_backslashes_def backslash_def)
next
  show "toUrlPath r (path_join r (d @ ''/index.html''))
     = (if d = [] \<or> hd d = CHR ''/'' \<or> hd d = backslash
        then replace_backslashes d @ ''/''
        else ''/'' @ replace_backslashes d @ ''/'')"
    unfolding toUrlPath_dir_index starts_with_separator ..
qed

theorem toUrlPath_index_witness:
  "toUrlPath ''/srv/www'' (path_join ''/srv/www'' ''index.html'') = ''/''
   \<and> toUrlPath ''/srv/www'' (path_join ''/srv/www'' (''ar/legal'' @ ''/index.html'')) = ''/ar/legal/''
   \<and> toUrlPath ''/srv/www'' (path_join ''/srv/www'' ((backslash # ''x'') @ ''/index.html'')) = ''/x/''"
  using toUrlPath_index [of "''/srv/www''" "''ar/legal''"]
    toUrlPath_index [of "''/srv/www''" "backslash # ''x''"]
  by (simp add: backslash_def replace_backslashes_def)

section \<open>The sitemap generator: order of the entries\<close>

lemma Boolean_toUrlPath: "filter Boolean (map (toUrlPath r) fs) = map (toUrlPath r) fs"
  by (induction fs) (simp_all add: Boolean_def toUrlPath_nonempty)

lemma url_path_mk_url: "url_path (mk_url now p) = p"
  by (simp add: url_path_def mk_url_def Let_def)

lemma map_url_path_urls: "map url_path (urls r now fs) = sorted_paths r fs"
  by (simp add: urls_def o_def url_path_mk_url)

text \<open>
  C2: in every run in which the files are found and the write is accepted, the sitemap that
  is written is the rendering of a list of entries in ascending lexicographic order of
  their URL paths: the list of the paths is sorted, and each entry's path is less than or
  equal to the next one's.
\<close>

theorem urls_sorted:
  assumes "getHtmlFiles r listing = Inr fs"
  shows "generate r listing now None
      = Inr (trim (sitemap_xml (urls r now fs)) @ [CHR 0x0A], Generated (length (urls r now fs)))
    \<and> sorted (map url_path (urls r now fs))
    \<and> successively (\<le>) (map url_path (urls r now fs))"
  unfolding map_url_path_urls using assms
  by (simp add: generate_def Let_def sorted_paths_def successively_if_sorted_wrt)

theorem urls_sorted_witness:
  "getHtmlFiles ''/w'' (Inr [File ''b.html'', Dir ''a'' [File ''index.html''], File ''index.html''])
     = Inr [''/w/b.html'', ''/w/a/index.html'', ''/w/index.html'']
   \<and> map url_path (urls ''/w'' ''2024-05-01'' [''/w/b.html'', ''/w/a/index.html'', ''/w/index.html''])
     = [''/'', ''/a/'', ''/b.html'']
   \<and> sorted (map url_path
        (urls ''/w'' ''2024-05-01'' [''/w/b.html'', ''/w/a/index.html'', ''/w/index.html'']))"
proof -
  have h: "getHtmlFiles ''/w''
      (Inr [File ''b.html'', Dir ''a'' [File ''index.html''], File ''index.html''])
     = Inr [''/w/b.html'', ''/w/a/index.html'', ''/w/index.html'']"
    by code_simp
  have v: "map url_path (urls ''/w'' ''2024-05-01'' [''/w/b.html'', ''/w/a/index.html'', ''/w/index.html''])
     = [''/'', ''/a/'', ''/b.html'']"
    by code_simp
  from urls_sorted [OF h, of "''2024-05-01''"] h v show ?thesis
    by blast
qed

section \<open>The sitemap generator: one entry for each wanted file\<close>

text \<open>Every file the walk finds lies below the directory it started from.\<close>

lemma walk_below_root:
  "walk dir es = Inr fs \<Longrightarrow> f \<in> set fs \<Longrightarrow> startsWith f (dir @ ''/'')"
proof (induction dir es arbitrary: fs rule: walk.induct)
  case (2 dir name es)
  then show ?case
    by (auto simp: startsWith_prefix path_join_def split: if_splits sum.splits)
next
  case (3 dir name sub es)
  show ?case
  proof (cases "name \<in> set SKIP_DIRS")
    case True
    with 3 show ?thesis by simp
  next
    case False
    with 3(4) obtain found rest where
      a: "walk (path_join dir name) sub = Inr found" and
      b: "walk dir es = Inr rest" and fs: "fs = found @ rest"
      by (auto split: sum.splits)
    from 3(5) fs consider "f \<in> set found" | "f \<in> set rest" by auto
    then show ?thesis
    proof cases
      case 1
      from "3.IH"(1)[OF False a 1] have "prefix (path_join dir name @ ''/'') f"
        by (simp add: startsWith_prefix)
      then have "prefix (dir @ ''/'') f"
        by (auto simp: path_join_def prefix_def)
      then show ?thesis by (simp add: startsWith_prefix)
    next
      case 2
      from "3.IH"(2)[OF False a b 2] show ?thesis .
    qed
  qed
qed (auto split: if_splits)

lemma all_files_dirs: "(ds', n) \<in> set (all_files ds es) \<Longrightarrow> set ds \<subseteq> set ds'"
  by (induction ds es rule: all_files.induct) auto

lemma wanted_below_skipped:
  "name \<in> set SKIP_DIRS \<Longrightarrow> filter wanted (all_files (ds @ [name]) sub) = []"
  by (auto simp: filter_empty_conv wanted_def dest!: all_files_dirs)

lemma walk_wanted:
  "set ds \<inter> set SKIP_DIRS = {} \<Longrightarrow> walk (foldl path_join r ds) es = Inr fs \<Longrightarrow>
     fs = map (full_path r) (filter wanted (all_files ds es))"
proof (induction ds es arbitrary: fs rule: all_files.induct)
  case (1 ds)
  then show ?case by simp
next
  case (2 ds name es)
  then show ?case
    by (auto simp: wanted_def full_path_def split: if_splits sum.splits)
next
  case (3 ds name sub es)
  show ?case
  proof (cases "name \<in> set SKIP_DIRS")
    case True
    with 3 show ?thesis by (simp add: wanted_below_skipped)
  next
    case False
    with 3(3) have ok: "set (ds @ [name]) \<inter> set SKIP_DIRS = {}" by auto
    from 3(4) False obtain found rest where
      f: "walk (foldl path_join r (ds @ [name])) sub = Inr found" and
      g: "walk (foldl path_join r ds) es = Inr rest" and fs: "fs = found @ rest"
      by (auto split: sum.splits)
    from "3.IH"(1)[OF ok f] "3.IH"(2)[OF 3(3) g] fs show ?thesis by simp
  qed
next
  case (4 ds name err es)
  then show ?case by (auto split: if_splits)
next
  case (5 ds name es)
  then show ?case by simp
qed

lemma mset_url_paths:
  "mset (map url_path (urls r now fs)) = mset (map (toUrlPath r) fs)"
  by (simp add: map_url_path_urls sorted_paths_def Boolean_toUrlPath)

lemma dropWhile_unchanged: "xs \<noteq> [] \<Longrightarrow> \<not> P (hd xs) \<Longrightarrow> dropWhile P xs = xs"
  by (cases xs) simp_all

lemma trim_unchanged:
  assumes "s \<noteq> []" and "\<not> is_space (hd s)" and "\<not> is_space (last s)"
  shows "trim s = s"
proof -
  from assms have at_front: "dropWhile is_space s = s"
    by (intro dropWhile_unchanged)
  from assms have "rev s \<noteq> []" and "\<not> is_space (hd (rev s))"
    by (simp_all add: hd_rev)
  then have at_back: "dropWhile is_space (rev s) = rev s"
    by (intro dropWhile_unchanged)
  show ?thesis
    by (simp add: trim_def at_front at_back)
qed

lemma trim_sitemap_xml: "trim (sitemap_xml us) = sitemap_xml us"
  by (rule trim_unchanged) (simp_all add: sitemap_xml_def is_space_def)

lemma sublist_concat_lines:
  "x \<in> set xs \<Longrightarrow> sublist x (concat (map (\<lambda>y. c # y) xs))"
proof (induction xs)
  case Nil
  then show ?case by simp
next
  case (Cons a xs)
  show ?case
  proof (cases "x = a")
    case True
    have "concat (map (\<lambda>y. c # y) (a # xs)) = [c] @ x @ concat (map (\<lambda>y. c # y) xs)"
      using True by simp
    then show ?thesis unfolding sublist_def by blast
  next
    case False
    with Cons obtain ps ss where "concat (map (\<lambda>y. c # y) xs) = ps @ x @ ss"
      by (auto simp: sublist_def)
    then have "concat (map (\<lambda>y. c # y) (a # xs)) = ((c # a) @ ps) @ x @ ss"
      by simp
    then show ?thesis unfolding sublist_def by blast
  qed
qed

lemma sublist_join_lines: "x \<in> set xs \<Longrightarrow> sublist x (join_lines xs)"
proof (cases xs)
  case Nil
  assume "x \<in> set xs"
  with Nil show ?thesis by simp
next
  case (Cons l rest)
  assume x: "x \<in> set xs"
  show ?thesis
  proof (cases "x = l")
    case True
    with Cons show ?thesis by (simp add: join_lines_def)
  next
    case False
    with x Cons have "x \<in> set rest" by simp
    then obtain ps ss where "concat (map (\<lambda>y. CHR 0x0A # y) rest) = ps @ x @ ss"
      using sublist_concat_lines[of x rest "CHR 0x0A"] by (auto simp: sublist_def)
    then have "join_lines xs = (l @ ps) @ x @ ss"
      using Cons by (simp add: join_lines_def)
    then show ?thesis unfolding sublist_def by blast
  qed
qed

lemma loc_in_url_xml: "sublist (''<loc>'' @ loc u @ ''</loc>'') (url_xml u)"
proof -
  have "url_xml u = (''    <url>'' @ [CHR 0x0A] @ ''        '') @ (''<loc>'' @ loc u @ ''</loc>'')
      @ ([CHR 0x0A] @
     ''        <lastmod>'' @ lastmod u @ ''</lastmod>'' @ [CHR 0x0A] @
     ''        <changefreq>'' @ url_changefreq u @ ''</changefreq>'' @ [CHR 0x0A] @
     ''        <priority>'' @ url_priority u @ ''</priority>'' @ [CHR 0x0A] @
     ''    </url>'')"
    by (simp add: url_xml_def)
  then show ?thesis unfolding sublist_def by blast
qed

lemma url_xml_in_sitemap: "u \<in> set us \<Longrightarrow> sublist (url_xml u) (sitemap_xml us)"
proof -
  assume "u \<in> set us"
  then have "sublist (url_xml u) (join_lines (map url_xml us))"
    by (intro sublist_join_lines) simp
  then obtain ps ss where "join_lines (map url_xml us) = ps @ url_xml u @ ss"
    by (auto simp: sublist_def)
  then have "\<exists>ps' ss'. sitemap_xml us = ps' @ url_xml u @ ss'"
    unfolding sitemap_xml_def
    by (metis append.assoc)
  then show ?thesis unfolding sublist_def .
qed

text \<open>
  C3: when the walk over the entries of the root succeeds, the files it found are exactly
  the wanted files of the tree (the HTML files whose name is not in the skip list and that
  are in no skipped directory), each once and in the order of the listing; the sitemap has
  as many entries as there are wanted files, and its URL paths are, as a multiset, the URL
  paths of the wanted files. A skipped file and a file that is not an HTML file are not
  wanted, so they give no entry. The run then writes the rendering of these entries and
  reports their number: the text written contains the block of every entry, and the block
  of an entry contains its location.
\<close>

theorem one_entry_for_each_wanted_file:
  assumes "getHtmlFiles r (Inr entries) = Inr htmlFiles"
  shows "htmlFiles = map (full_path r) (filter wanted (all_files [] entries))
    \<and> length (urls r now htmlFiles) = length (filter wanted (all_files [] entries))
    \<and> mset (map url_path (urls r now htmlFiles))
        = mset (map (\<lambda>f. toUrlPath r (full_path r f)) (filter wanted (all_files [] entries)))
    \<and> generate r (Inr entries) now None
        = Inr (sitemap_xml (urls r now htmlFiles) @ [CHR 0x0A],
               Generated (length (filter wanted (all_files [] entries))))
    \<and> written (main r (Inr entries) now None)
        = Some (sitemap_xml (urls r now htmlFiles) @ [CHR 0x0A])
    \<and> list_all (\<lambda>u. sublist (url_xml u) (sitemap_xml (urls r now htmlFiles))
          \<and> sublist (''<loc>'' @ loc u @ ''</loc>'') (url_xml u)) (urls r now htmlFiles)"
proof -
  from assms have "walk (foldl path_join r []) entries = Inr htmlFiles"
    by (simp add: getHtmlFiles_def)
  then have found: "htmlFiles = map (full_path r) (filter wanted (all_files [] entries))"
    by (intro walk_wanted) simp_all
  have "length (urls r now htmlFiles) = length (map url_path (urls r now htmlFiles))"
    by simp
  also have "\<dots> = length htmlFiles"
    unfolding map_url_path_urls by (simp add: sorted_paths_def Boolean_toUrlPath)
  finally have len: "length (urls r now htmlFiles) = length htmlFiles" .
  from found len have len': "length (urls r now htmlFiles) = length (filter wanted (all_files [] entries))"
    by simp
  have ms: "mset (map url_path (urls r now htmlFiles))
        = mset (map (\<lambda>f. toUrlPath r (full_path r f)) (filter wanted (all_files [] entries)))"
    using found mset_url_paths[of r now htmlFiles] by (simp add: o_def)
  have gen: "generate r (Inr entries) now None
        = Inr (sitemap_xml (urls r now htmlFiles) @ [CHR 0x0A],
               Generated (length (filter wanted (all_files [] entries))))"
    using assms len' by (simp add: generate_def Let_def trim_sitemap_xml)
  have wr: "written (main r (Inr entries) now None)
        = Some (sitemap_xml (urls r now htmlFiles) @ [CHR 0x0A])"
    by (simp add: main_def gen)
  have rend: "list_all (\<lambda>u. sublist (url_xml u) (sitemap_xml (urls r now htmlFiles))
          \<and> sublist (''<loc>'' @ loc u @ ''</loc>'') (url_xml u)) (urls r now htmlFiles)"
    unfolding list_all_iff using url_xml_in_sitemap loc_in_url_xml by blast
  from found len' ms gen wr rend show ?thesis by blast
qed

theorem one_entry_for_each_wanted_file_witness:
  "getHtmlFiles ''/w''
      (Inr [File ''index.html'', Dir ''b'' [File ''index.html'', File ''404.html'', File ''x.txt''],
            Dir ''images'' [File ''y.html''], Other ''z.html''])
     = Inr [''/w/index.html'', ''/w/b/index.html'']
   \<and> [''/w/index.html'', ''/w/b/index.html'']
     = map (full_path ''/w'') (filter wanted (all_files []
         [File ''index.html'', Dir ''b'' [File ''index.html'', File ''404.html'', File ''x.txt''],
          Dir ''images'' [File ''y.html''], Other ''z.html'']))
   \<and> length (urls ''/w'' ''2024-05-01'' [''/w/index.html'', ''/w/b/index.html''])
     = length (filter wanted (all_files []
         [File ''index.html'', Dir ''b'' [File ''index.html'', File ''404.html'', File ''x.txt''],
          Dir ''images'' [File ''y.html''], Other ''z.html'']))
   \<and> written (main ''/w''
        (Inr [File ''index.html'', Dir ''b'' [File ''index.html'', File ''404.html'', File ''x.txt''],
              Dir ''images'' [File ''y.html''], Other ''z.html'']) ''2024-05-01'' None)
     = Some (sitemap_xml (urls ''/w'' ''2024-05-01'' [''/w/index.html'', ''/w/b/index.html''])
         @ [CHR 0x0A])"
proof -
  have h: "getHtmlFiles ''/w''
      (Inr [File ''index.html'', Dir ''b'' [File ''index.html'', File ''404.html'', File ''x.txt''],
            Dir ''images'' [File ''y.html''], Other ''z.html''])
     = Inr [''/w/index.html'', ''/w/b/index.html'']"
    by code_simp
  from one_entry_for_each_wanted_file [OF h, of "''2024-05-01''"] h show ?thesis
    by blast
qed

section \<open>The sitemap generator: metadata\<close>

text \<open>
  C4, as the specification states it: the rules would look at the prefix of the path. The
  path \<open>/ar/services/legal.html\<close> starts with none of \<open>/services/\<close>, \<open>/personal/\<close> and
  \<open>/legal/\<close>, so it would be one of the other paths, with \<open>monthly\<close> and \<open>0.6\<close>; the code
  gives it \<open>weekly\<close> and \<open>0.9\<close>, because it looks for \<open>/services/\<close> anywhere in the path.
\<close>

theorem getMeta_not_by_prefix:
  "\<not> startsWith ''/ar/services/legal.html'' ''/services/''
   \<and> \<not> startsWith ''/ar/services/legal.html'' ''/personal/''
   \<and> \<not> startsWith ''/ar/services/legal.html'' ''/legal/''
   \<and> getMeta ''/ar/services/legal.html'' = \<lparr>changefreq = ''weekly'', priority = ''0.9''\<rparr>
   \<and> getMeta ''/ar/services/legal.html'' \<noteq> \<lparr>changefreq = ''monthly'', priority = ''0.6''\<rparr>"
  by code_simp

text \<open>
  C4, amended: the first rule that applies decides, and every rule but the first tests
  whether the path contains a piece anywhere, not whether it starts with it: the path \<open>/\<close>
  gets \<open>weekly\<close> and \<open>1.0\<close>; a path that contains \<open>/services/\<close>, \<open>/personal/\<close> or \<open>/legal/\<close>
  gets \<open>weekly\<close> and \<open>0.9\<close>; otherwise one that contains \<open>/locations/\<close> gets \<open>monthly\<close> and
  \<open>0.8\<close>; otherwise one that contains \<open>/industries/\<close> or \<open>/resources/\<close> gets \<open>monthly\<close> and
  \<open>0.7\<close>; otherwise one that contains \<open>privacy\<close> or \<open>terms\<close> gets \<open>yearly\<close> and \<open>0.3\<close>; every
  other path gets \<open>monthly\<close> and \<open>0.6\<close>. (\<open>sublist a p\<close>: \<open>p\<close> is some \<open>ps @ a @ ss\<close>.)
\<close>

theorem getMeta_first_rule_that_applies:
  "getMeta p =
     (if p = ''/'' then \<lparr>changefreq = ''weekly'', priority = ''1.0''\<rparr>
      else if sublist ''/services/'' p \<or> sublist ''/personal/'' p \<or> sublist ''/legal/'' p
        then \<lparr>changefreq = ''weekly'', priority = ''0.9''\<rparr>
      else if sublist ''/locations/'' p then \<lparr>changefreq = ''monthly'', priority = ''0.8''\<rparr>
      else if sublist ''/industries/'' p \<or> sublist ''/resources/'' p
        then \<lparr>changefreq = ''monthly'', priority = ''0.7''\<rparr>
      else if sublist ''privacy'' p \<or> sublist ''terms'' p
        then \<lparr>changefreq = ''yearly'', priority = ''0.3''\<rparr>
      else \<lparr>changefreq = ''monthly'', priority = ''0.6''\<rparr>)"
  by (simp add: getMeta_def includes_sublist)

section \<open>The sitemap generator: errors\<close>

lemma walk_result:
  "(read_errors es = [] \<longrightarrow> (\<exists>fs. walk dir es = Inr fs)) \<and>
   (read_errors es \<noteq> [] \<longrightarrow> walk dir es = Inl (hd (read_errors es)))"
proof (induction es arbitrary: dir rule: read_errors.induct)
  case (2 name es)
  from "2.IH"[of dir] show ?case by (cases "walk dir es") auto
next
  case (3 name sub es)
  show ?case
  proof (cases "name \<in> set SKIP_DIRS")
    case True
    with "3.IH"(2)[of dir] show ?thesis by simp
  next
    case False
    note sub = "3.IH"(1)[OF False, of "path_join dir name"] and rest = "3.IH"(2)[of dir]
    show ?thesis
    proof (cases "read_errors sub = []")
      case True
      with sub obtain found where "walk (path_join dir name) sub = Inr found" by auto
      with rest False True show ?thesis by auto
    next
      case nonempty: False
      with sub False show ?thesis by simp
    qed
  qed
qed auto

lemma walk_ok: "read_errors es = [] \<Longrightarrow> \<exists>fs. walk dir es = Inr fs"
  using walk_result by blast

lemma walk_fail: "read_errors es \<noteq> [] \<Longrightarrow> walk dir es = Inl (hd (read_errors es))"
  using walk_result by blast

lemma generate_Inl: "fs_error_occurs listing wr \<Longrightarrow> \<exists>e. generate r listing now wr = Inl e"
proof (cases listing)
  case (Inl e)
  then show ?thesis by (simp add: generate_def getHtmlFiles_def)
next
  case (Inr es)
  assume occ: "fs_error_occurs listing wr"
  show ?thesis
  proof (cases "read_errors es = []")
    case True
    with occ Inr obtain e where "wr = Some e" by (auto simp: fs_error_occurs_def)
    moreover from True obtain fs where "walk r es = Inr fs" using walk_ok by blast
    ultimately show ?thesis using Inr by (simp add: generate_def getHtmlFiles_def)
  next
    case False
    then show ?thesis using Inr by (simp add: generate_def getHtmlFiles_def walk_fail)
  qed
qed

lemma generate_Inr:
  "\<not> fs_error_occurs listing wr \<Longrightarrow> \<exists>c l. generate r listing now wr = Inr (c, l)"
proof (cases listing)
  case (Inl e)
  assume "\<not> fs_error_occurs listing wr"
  with Inl show ?thesis by (simp add: fs_error_occurs_def)
next
  case (Inr es)
  assume "\<not> fs_error_occurs listing wr"
  with Inr have "read_errors es = []" "wr = None" by (auto simp: fs_error_occurs_def)
  moreover then obtain fs where "walk r es = Inr fs" using walk_ok by blast
  ultimately show ?thesis using Inr by (simp add: generate_def getHtmlFiles_def Let_def)
qed

text \<open>
  C8: when a file-system error occurs in a run (the listing of the root or of a directory
  the walk has to read is refused, or the write is), the process ends with exit status 1,
  one error line on the console and no sitemap written; when none occurs, it ends with
  status 0 and the sitemap written. So the sitemap is written only when no error occurs.
\<close>

theorem main_exit_status:
  "(fs_error_occurs listing wr \<longrightarrow>
      exit_status (main r listing now wr) = 1
      \<and> (\<exists>e. console (main r listing now wr) = [ErrorGenerating e])
      \<and> written (main r listing now wr) = None)
   \<and> (\<not> fs_error_occurs listing wr \<longrightarrow>
      exit_status (main r listing now wr) = 0
      \<and> (\<exists>n. console (main r listing now wr) = [Generated n])
      \<and> written (main r listing now wr) \<noteq> None)"
proof (intro conjI impI)
  assume "fs_error_occurs listing wr"
  then obtain e where e: "generate r listing now wr = Inl e"
    using generate_Inl by blast
  show "exit_status (main r listing now wr) = 1"
    and "\<exists>e. console (main r listing now wr) = [ErrorGenerating e]"
    and "written (main r listing now wr) = None"
    by (simp_all add: main_def e)
next
  assume "\<not> fs_error_occurs listing wr"
  then obtain c l where ok: "generate r listing now wr = Inr (c, l)"
    using generate_Inr by blast
  then have "\<exists>n. l = Generated n"
    by (auto simp: generate_def Let_def split: sum.splits option.splits)
  with ok show "exit_status (main r listing now wr) = 0"
    and "\<exists>n. console (main r listing now wr) = [Generated n]"
    and "written (main r listing now wr) \<noteq> None"
    by (auto simp: main_def)
qed

theorem main_exit_status_witness:
  "fs_error_occurs (Inr [File ''index.html'', DirUnreadable ''private'' EACCES]) None
   \<and> exit_status (main ''/w'' (Inr [File ''index.html'', DirUnreadable ''private'' EACCES])
        ''2024-05-01'' None) = 1
   \<and> \<not> fs_error_occurs (Inr [File ''index.html'', Dir ''images'' [DirUnreadable ''raw'' EACCES]]) None
   \<and> exit_status (main ''/w'' (Inr [File ''index.html'', Dir ''images'' [DirUnreadable ''raw'' EACCES]])
        ''2024-05-01'' None) = 0
   \<and> fs_error_occurs (Inr [File ''index.html'']) (Some ENOSPC)
   \<and> written (main ''/w'' (Inr [File ''index.html'']) ''2024-05-01'' (Some ENOSPC)) = None"
proof -
  have a: "fs_error_occurs (Inr [File ''index.html'', DirUnreadable ''private'' EACCES]) None"
    by (simp add: fs_error_occurs_def SKIP_DIRS_def)
  have b: "\<not> fs_error_occurs (Inr [File ''index.html'', Dir ''images'' [DirUnreadable ''raw'' EACCES]]) None"
    by (simp add: fs_error_occurs_def SKIP_DIRS_def)
  have c: "fs_error_occurs (Inr [File ''index.html'']) (Some ENOSPC)"
    by (simp add: fs_error_occurs_def)
  from a b c
    main_exit_status [of "Inr [File ''index.html'', DirUnreadable ''private'' EACCES]" None "''/w''"
      "''2024-05-01''"]
    main_exit_status [of "Inr [File ''index.html'', Dir ''images'' [DirUnreadable ''raw'' EACCES]]" None
      "''/w''" "''2024-05-01''"]
    main_exit_status [of "Inr [File ''index.html'']" "Some ENOSPC" "''/w''" "''2024-05-01''"]
  show ?thesis by blast
qed

section \<open>The navigation scroll handler: the class of the header\<close>

lemma classList_add_member: "c \<in> set (classList_add c cs)"
  by (simp add: classList_add_def)

lemma classList_remove_member: "c \<notin> set (classList_remove c cs)"
  by (simp add: classList_remove_def)

text \<open>
  C7: on a page that has the header element, after \<open>updateHeader\<close> has run the header has the
  class \<open>scrolled\<close> when the scroll offset is above 50, and does not have it when the offset
  is 50 or less.
\<close>

theorem updateHeader_scrolled:
  assumes "header st = Some cs"
  shows "\<exists>cs'. header (updateHeader y st) = Some cs'
    \<and> (50 < y \<longrightarrow> classList_contains cs' ''scrolled'')
    \<and> (y \<le> 50 \<longrightarrow> \<not> classList_contains cs' ''scrolled'')"
  using assms
  by (simp add: updateHeader_def classList_contains_def classList_add_member
      classList_remove_member del: set_filter)

theorem updateHeader_scrolled_witness:
  "header \<lparr>header = Some [''site-header''], ticking = True, frames = 0\<rparr> = Some [''site-header'']
   \<and> (\<exists>cs'. header (updateHeader 51 \<lparr>header = Some [''site-header''], ticking = True, frames = 0\<rparr>)
         = Some cs' \<and> classList_contains cs' ''scrolled'')
   \<and> (\<exists>cs'. header (updateHeader 50
           \<lparr>header = Some [''site-header'', ''scrolled''], ticking = True, frames = 0\<rparr>)
         = Some cs' \<and> \<not> classList_contains cs' ''scrolled'')"
  using
    updateHeader_scrolled [of "\<lparr>header = Some [''site-header''], ticking = True, frames = 0\<rparr>"
      "[''site-header'']" 51]
    updateHeader_scrolled [of "\<lparr>header = Some [''site-header'', ''scrolled''], ticking = True, frames = 0\<rparr>"
      "[''site-header'', ''scrolled'']" 50]
  by simp

section \<open>The image optimizer: format substitution\<close>

lemma getOptimizedSrc_unsupported: "\<not> truthy w \<Longrightarrow> getOptimizedSrc w src = src"
  by (simp add: getOptimizedSrc_def)

lemma getOptimizedSrc_photo: "getOptimizedSrc (Some True) ''photo.jpg'' = ''photo.webp''"
  by code_simp

text \<open>
  C5: an image whose \<open>data-src\<close> is \<open>photo.jpg\<close> (and whose current source is something
  else, so that it is loaded at all) is loaded through a temporary image, and when that one
  has loaded the source of the image is \<open>photo.webp\<close> if support for WebP was detected and
  \<open>photo.jpg\<close>, unchanged, if it was not; without support every source string stays as it
  is.
\<close>

theorem photo_resolves:
  assumes "data_src i = Some ''photo.jpg''" and "img_src br i \<noteq> ''photo.jpg''"
  shows "(\<exists>p. loadImage br (Some True) i = Some p \<and> optimizedSrc p = ''photo.webp''
            \<and> src_attr (onload (Some True) p i) = Some ''photo.webp'')
    \<and> (\<exists>p. loadImage br (Some False) i = Some p \<and> optimizedSrc p = ''photo.jpg''
            \<and> src_attr (onload (Some False) p i) = Some ''photo.jpg'')
    \<and> getOptimizedSrc (Some False) src = src"
  using assms
  by (simp add: loadImage_def Let_def onload_def getOptimizedSrc_photo
      getOptimizedSrc_unsupported truthy_def)

theorem photo_resolves_witness:
  "data_src \<lparr>src_attr = Some ''placeholder.gif'', srcset_attr = None, data_src = Some ''photo.jpg'',
       data_srcset = None, loading_attr = None, classList = []\<rparr> = Some ''photo.jpg''
   \<and> img_src \<lparr>resolveUrl = (\<lambda>u. ''https://h/'' @ u), hasIntersectionObserver = True,
         hasMutationObserver = True\<rparr>
       \<lparr>src_attr = Some ''placeholder.gif'', srcset_attr = None, data_src = Some ''photo.jpg'',
         data_srcset = None, loading_attr = None, classList = []\<rparr> \<noteq> ''photo.jpg''
   \<and> (\<exists>p. loadImage \<lparr>resolveUrl = (\<lambda>u. ''https://h/'' @ u), hasIntersectionObserver = True,
           hasMutationObserver = True\<rparr> (Some True)
         \<lparr>src_attr = Some ''placeholder.gif'', srcset_attr = None, data_src = Some ''photo.jpg'',
           data_srcset = None, loading_attr = None, classList = []\<rparr> = Some p
         \<and> optimizedSrc p = ''photo.webp'')"
proof -
  let ?i = "\<lparr>src_attr = Some ''placeholder.gif'', srcset_attr = None, data_src = Some ''photo.jpg'',
       data_srcset = None, loading_attr = None, classList = []\<rparr>"
  let ?br = "\<lparr>resolveUrl = (\<lambda>u. ''https://h/'' @ u), hasIntersectionObserver = True,
         hasMutationObserver = True\<rparr>"
  have a: "data_src ?i = Some ''photo.jpg''"
    by simp
  have b: "img_src ?br ?i \<noteq> ''photo.jpg''"
    by (simp add: img_src_def)
  from photo_resolves [OF a b, of "''photo.jpg''"] a b show ?thesis
    by blast
qed

lemma replace_ext_end_cases: "replace_ext_end s = s \<or> endsWith (replace_ext_end s) ''.webp''"
proof (induction s)
  case Nil
  then show ?case by simp
next
  case (Cons c cs)
  show ?case
  proof (cases "match_ext (c # cs) = Some (length (c # cs))")
    case True
    then show ?thesis by (simp add: endsWith_def)
  next
    case False
    with Cons show ?thesis by (auto simp: endsWith_suffix suffix_ConsI)
  qed
qed

text \<open>
  C10: \<open>getOptimizedSrc\<close> is idempotent, whatever the detection answered; and a source that
  ends in \<open>.webp\<close> or contains \<open>data:\<close> is returned unchanged.
\<close>

theorem getOptimizedSrc_idempotent:
  "getOptimizedSrc w (getOptimizedSrc w src) = getOptimizedSrc w src
   \<and> (endsWith src ''.webp'' \<or> includes_str src ''data:'' \<longrightarrow> getOptimizedSrc w src = src)"
  using replace_ext_end_cases [of src] by (auto simp: getOptimizedSrc_def)

theorem getOptimizedSrc_idempotent_witness:
  "(endsWith ''img/a.webp'' ''.webp'' \<or> includes_str ''img/a.webp'' ''data:'')
   \<and> getOptimizedSrc (Some True) ''img/a.webp'' = ''img/a.webp''
   \<and> (endsWith ''data:image/png;base64,AAAA.png'' ''.webp''
        \<or> includes_str ''data:image/png;base64,AAAA.png'' ''data:'')
   \<and> getOptimizedSrc (Some True) ''data:image/png;base64,AAAA.png''
       = ''data:image/png;base64,AAAA.png''
   \<and> getOptimizedSrc (Some True) (getOptimizedSrc (Some True) ''img/b.JPEG'')
       = getOptimizedSrc (Some True) ''img/b.JPEG''"
proof -
  have a: "endsWith ''img/a.webp'' ''.webp''"
    by code_simp
  have b: "includes_str ''data:image/png;base64,AAAA.png'' ''data:''"
    by code_simp
  from a b
    getOptimizedSrc_idempotent [of "Some True" "''img/a.webp''"]
    getOptimizedSrc_idempotent [of "Some True" "''data:image/png;base64,AAAA.png''"]
    getOptimizedSrc_idempotent [of "Some True" "''img/b.JPEG''"]
  show ?thesis by blast
qed

section \<open>The image optimizer: the fallback\<close>

text \<open>
  C6: take an image with a non-empty \<open>data-src\<close> \<open>d\<close> that differs from its current source.
  \<open>loadImage\<close> points one temporary image at the optimized source. When that one fails,
  the source of the image is \<open>d\<close> itself, the image has the class \<open>loaded\<close>, and nothing
  else happens: no further temporary image is started (the log of loads and the
  temporary images in flight are as before the call apart from the one that failed), and no
  timer is set.
\<close>

theorem fallback_to_original:
  assumes "data_src (image st) = Some d" and "d \<noteq> []" and "d \<noteq> img_src br (image st)"
  shows "loads (call_loadImage br w st) = loads st @ [getOptimizedSrc w d]
    \<and> src_attr (image (step br w (call_loadImage br w st) (ProbeFailed (length (probes st)))))
        = Some d
    \<and> classList_contains
          (classList (image (step br w (call_loadImage br w st) (ProbeFailed (length (probes st))))))
          ''loaded''
    \<and> loads (step br w (call_loadImage br w st) (ProbeFailed (length (probes st))))
        = loads (call_loadImage br w st)
    \<and> probes (step br w (call_loadImage br w st) (ProbeFailed (length (probes st)))) = probes st
    \<and> timers (step br w (call_loadImage br w st) (ProbeFailed (length (probes st)))) = timers st"
proof -
  let ?p = "\<lparr>optimizedSrc = getOptimizedSrc w d, orig_src = d, orig_srcset = data_srcset (image st)\<rparr>"
  from assms have l: "loadImage br w (image st) = Some ?p"
    by (simp add: loadImage_def Let_def)
  then have c: "call_loadImage br w st
      = st\<lparr>probes := probes st @ [?p], loads := loads st @ [getOptimizedSrc w d]\<rparr>"
    by (simp add: call_loadImage_def)
  show ?thesis
    unfolding c
    by (simp add: onerror_def classList_contains_def classList_add_member nth_append)
qed

theorem fallback_to_original_witness:
  "data_src (image (fresh_page \<lparr>src_attr = None, srcset_attr = None, data_src = Some ''photo.jpg'',
       data_srcset = None, loading_attr = None, classList = []\<rparr>)) = Some ''photo.jpg''
   \<and> ''photo.jpg'' \<noteq> []
   \<and> ''photo.jpg'' \<noteq> img_src \<lparr>resolveUrl = (\<lambda>u. ''https://h/'' @ u),
         hasIntersectionObserver = True, hasMutationObserver = True\<rparr>
       (image (fresh_page \<lparr>src_attr = None, srcset_attr = None, data_src = Some ''photo.jpg'',
         data_srcset = None, loading_attr = None, classList = []\<rparr>))
   \<and> src_attr (image (step \<lparr>resolveUrl = (\<lambda>u. ''https://h/'' @ u),
         hasIntersectionObserver = True, hasMutationObserver = True\<rparr> (Some True)
       (call_loadImage \<lparr>resolveUrl = (\<lambda>u. ''https://h/'' @ u),
         hasIntersectionObserver = True, hasMutationObserver = True\<rparr> (Some True)
         (fresh_page \<lparr>src_attr = None, srcset_attr = None, data_src = Some ''photo.jpg'',
           data_srcset = None, loading_attr = None, classList = []\<rparr>))
       (ProbeFailed (length (probes (fresh_page \<lparr>src_attr = None, srcset_attr = None,
           data_src = Some ''photo.jpg'', data_srcset = None, loading_attr = None,
           classList = []\<rparr>)))))) = Some ''photo.jpg''"
  using fallback_to_original [of
      "fresh_page \<lparr>src_attr = None, srcset_attr = None, data_src = Some ''photo.jpg'',
        data_srcset = None, loading_attr = None, classList = []\<rparr>"
      "''photo.jpg''"
      "\<lparr>resolveUrl = (\<lambda>u. ''https://h/'' @ u), hasIntersectionObserver = True,
        hasMutationObserver = True\<rparr>"
      "Some True"]
  by (simp add: fresh_page_def img_src_def)

section \<open>The image optimizer: loading once\<close>

text \<open>
  C9 on a concrete page: WebP is supported, both observers exist, and the image has
  \<open>data-src="https://h/photo.jpg"\<close> (an absolute URL, which resolves to itself). The image
  is observed, comes into view and is loaded; before its temporary image has loaded, the
  image is reported as added again (it was moved in the document) and is observed again.
  Then the temporary image loads: the image has the class \<open>loaded\<close> and the source
  \<open>https://h/photo.webp\<close>. The next intersection callback calls \<open>loadImage\<close>, which
  compares \<open>data-src\<close> with the source, finds them different and starts a second load. A
  direct call of \<open>loadImage\<close> on the loaded image does the same.
\<close>

theorem loaded_image_is_loaded_again:
  "classList_contains (classList (image
      (run_events plain_browser (Some True)
        (setupLazyLoading plain_browser (Some True) (fresh_page photo_img))
        [Intersection True, NodeAdded Ancestor, ProbeLoaded 0]))) ''loaded''
   \<and> loads
      (run_events plain_browser (Some True)
        (setupLazyLoading plain_browser (Some True) (fresh_page photo_img))
        [Intersection True, NodeAdded Ancestor, ProbeLoaded 0])
     = [''https://h/photo.webp'']
   \<and> loads
      (run_events plain_browser (Some True)
        (setupLazyLoading plain_browser (Some True) (fresh_page photo_img))
        [Intersection True, NodeAdded Ancestor, ProbeLoaded 0, Intersection True])
     = [''https://h/photo.webp'', ''https://h/photo.webp'']
   \<and> loads
      (run_events plain_browser (Some True)
        (setupLazyLoading plain_browser (Some True) (fresh_page photo_img))
        [Intersection True, ProbeLoaded 0, LoadImage])
     = [''https://h/photo.webp'', ''https://h/photo.webp'']"
  by code_simp

end
